theory Spec2Isabelle
  imports Main
begin

section \<open>Promises and the timeout wrapper\<close>

text \<open>
  A JavaScript promise either settles (it is fulfilled with a value or rejected with an
  error message) at some instant, counted in milliseconds from the moment it is awaited,
  or it never settles.
\<close>

datatype 'a settled = Fulfilled 'a | Rejected string

datatype 'a promise = Settles nat "'a settled" | Never

text \<open>
  \<^verbatim>\<open>
  function withTimeout(promise, ms, errorMessage) {
    return Promise.race([
      promise,
      new Promise((_, reject) =>
        setTimeout(() => reject(new Error(errorMessage)), ms)),
    ]);
  }
  \<close>
  The race is won by whichever side settles first. The timer side rejects with
  \<open>errorMessage\<close> at instant \<open>ms\<close>. When both sides settle at the same instant the
  model lets the timer win (the timer phase of the event loop runs before the completion
  callbacks of the same turn). The function has no handle on the operation other than
  its promise: the loser is neither read again nor stopped.
\<close>

definition withTimeout :: "'a promise \<Rightarrow> nat \<Rightarrow> string \<Rightarrow> 'a settled" where
  "withTimeout p ms errorMessage =
     (case p of
        Never \<Rightarrow> Rejected errorMessage
      | Settles t r \<Rightarrow> if t < ms then r else Rejected errorMessage)"

section \<open>Scrolling the page\<close>

text \<open>
  \<^verbatim>\<open>
  let totalHeight = 0;
  const distance = 500;
  const timer = setInterval(() => {
    const scrollHeight = document.body.scrollHeight;
    window.scrollBy(0, distance);
    totalHeight += distance;
    if (totalHeight >= scrollHeight) { clearInterval(timer); resolve(); }
  }, 100);
  \<close>
  The document is given by the scroll height it has at each tick of the interval (lazy
  sections make it grow) and by the height of the viewport. The browser clamps the
  scroll position to \<open>scrollHeight - innerHeight\<close>.
\<close>

record document =
  scrollHeightAt :: "nat \<Rightarrow> nat"
  innerHeight :: nat

definition distance :: nat where
  "distance = 500"

definition interval_ms :: nat where
  "interval_ms = 100"

definition scrollBy :: "nat \<Rightarrow> nat \<Rightarrow> nat \<Rightarrow> nat \<Rightarrow> nat" where
  "scrollBy scrollHeight vh scrollY dy = min (scrollY + dy) (scrollHeight - vh)"

text \<open>
  One call per tick of the interval; \<open>k\<close> counts the ticks that have run. The result is
  the number of ticks run and the final scroll position; a loop that never clears its
  timer has the value \<open>None\<close>.
\<close>

partial_function (option) scroll_ticks ::
  "document \<Rightarrow> nat \<Rightarrow> nat \<Rightarrow> nat \<Rightarrow> (nat \<times> nat) option" where
  "scroll_ticks doc k totalHeight scrollY =
     (let scrollHeight = scrollHeightAt doc k;
          scrollY' = scrollBy scrollHeight (innerHeight doc) scrollY distance;
          totalHeight' = totalHeight + distance
      in if totalHeight' \<ge> scrollHeight then Some (Suc k, scrollY')
         else scroll_ticks doc (Suc k) totalHeight' scrollY')"

declare scroll_ticks.simps [code]

definition autoScroll :: "document \<Rightarrow> (nat \<times> nat) option" where
  "autoScroll doc = scroll_ticks doc 0 0 0"


section \<open>The page and the extraction\<close>

record element =
  classList :: "string list"
  textContent :: string
  aria_label :: "string option"
  data_link :: "string option"

text \<open>The object returned by the extraction: \<open>{text, ariaLabel, dataLink}\<close>. An absent
  attribute is \<open>null\<close>, here \<open>None\<close>.\<close>

record button_data =
  data_text :: string
  data_ariaLabel :: "string option"
  data_dataLink :: "string option"

text \<open>\<open>String.prototype.trim\<close> on strings of 8-bit code units: tab, line feed, vertical
  tab, form feed, carriage return, space and the no-break space are stripped at both
  ends.\<close>

definition is_space :: "char \<Rightarrow> bool" where
  "is_space c = (c \<in> set [CHR 0x09, CHR 0x0A, CHR 0x0B, CHR 0x0C, CHR 0x0D, CHR 0x20, CHR 0xA0])"

definition trim :: "string \<Rightarrow> string" where
  "trim s = rev (dropWhile is_space (rev (dropWhile is_space s)))"

text \<open>\<open>document.querySelector('.order__button.btn-main')\<close>: the first element, in document
  order, that carries both classes.\<close>

definition querySelector :: "element list \<Rightarrow> element option" where
  "querySelector nodes =
     find (\<lambda>e. ''order__button'' \<in> set (classList e) \<and> ''btn-main'' \<in> set (classList e)) nodes"

text \<open>
  \<^verbatim>\<open>
  const button = document.querySelector('.order__button.btn-main');
  if (button) {
    if (button.classList.contains('hide')) { return null; }
    return { text: button.textContent.trim(),
             ariaLabel: button.getAttribute('aria-label'),
             dataLink: button.getAttribute('data-link') };
  }
  return null;
  \<close>
\<close>

definition extractData :: "element list \<Rightarrow> button_data option" where
  "extractData nodes =
     (case querySelector nodes of
        Some button \<Rightarrow>
          if ''hide'' \<in> set (classList button) then None
          else Some \<lparr> data_text = trim (textContent button),
                      data_ariaLabel = aria_label button,
                      data_dataLink = data_link button \<rparr>
      | None \<Rightarrow> None)"

section \<open>The bot's state\<close>

type_synonym chat_id = int

text \<open>A cancellation token \<open>{ cancelled: bool }\<close> is an object shared by reference between
  the controller map and the running session. The heap of tokens is a list of their
  \<open>cancelled\<close> fields; a reference is an index, and a new object is appended.\<close>

type_synonym ref = nat

datatype event =
    Launch | NewPage | SetUserAgent | Goto string | Pause int | Scroll | Query | Close
  | LogInfo string | LogError string | SendMessage chat_id string
  | NewToken ref | SetCancelled ref | Delete chat_id

record bot =
  scrapingControllers :: "chat_id \<rightharpoonup> ref"
  tokens :: "bool list"
  events :: "event list"

definition emit :: "event \<Rightarrow> bot \<Rightarrow> bot" where
  "emit e st = st\<lparr>events := events st @ [e]\<rparr>"

definition sendMessage :: "chat_id \<Rightarrow> string \<Rightarrow> bot \<Rightarrow> bot" where
  "sendMessage chatId m st = emit (SendMessage chatId m) st"

text \<open>Configuration read from the environment: \<open>parseInt(...) || default\<close>, where
  \<open>None\<close> stands for \<open>NaN\<close>, and the URL parser behind \<open>new URL(url)\<close>.\<close>

record config =
  RETRY_DELAY_MS :: "int option"
  PAGE_TIMEOUT_MS :: "int option"
  valid_url :: "string \<Rightarrow> bool"

definition or_default :: "int option \<Rightarrow> int \<Rightarrow> int" where
  "or_default v d = (case v of None \<Rightarrow> d | Some n \<Rightarrow> if n = 0 then d else n)"

definition RETRY_DELAY :: "config \<Rightarrow> int" where
  "RETRY_DELAY cfg = or_default (RETRY_DELAY_MS cfg) 5000"

definition PAGE_TIMEOUT :: "config \<Rightarrow> int" where
  "PAGE_TIMEOUT cfg = or_default (PAGE_TIMEOUT_MS cfg) 30000"

section \<open>Commands\<close>

datatype command = StartCmd chat_id | ScrapeCmd chat_id string | StopCmd chat_id

text \<open>
  \<^verbatim>\<open>
  if (scrapingControllers[chatId]) {
    scrapingControllers[chatId].cancelled = true;
    bot.sendMessage(chatId, 'Scraping has been stopped.');
  } else {
    bot.sendMessage(chatId, 'No active scraping process to stop.');
  }
  \<close>
\<close>

definition stop_handler :: "chat_id \<Rightarrow> bot \<Rightarrow> bot" where
  "stop_handler chatId st =
     (case scrapingControllers st chatId of
        Some r \<Rightarrow>
          sendMessage chatId ''Scraping has been stopped.''
            (emit (SetCancelled r) (st\<lparr>tokens := (tokens st)[r := True]\<rparr>))
      | None \<Rightarrow> sendMessage chatId ''No active scraping process to stop.'' st)"

definition start_handler :: "chat_id \<Rightarrow> bot \<Rightarrow> bot" where
  "start_handler chatId st =
     sendMessage chatId
       (''Hello! I am your Telegram bot. Use /scrape <url> to check the product page.'' @
        [CHR 0x0A] @ ''Use /stop to cancel an active scrape.'') st"

definition already_running :: string where
  "already_running =
     ''A scraping process is already running. Use /stop to cancel it before starting a new one.''"

text \<open>The part of the \<open>/scrape\<close> handler that runs before its first \<open>await\<close>: URL
  validation, the admission check, and the creation and storing of the token.\<close>

datatype admission = InvalidUrl | AlreadyRunning | Admitted ref

definition admit :: "config \<Rightarrow> chat_id \<Rightarrow> string \<Rightarrow> bot \<Rightarrow> admission \<times> bot" where
  "admit cfg chatId url st =
     (if \<not> valid_url cfg url then (InvalidUrl, sendMessage chatId ''Invalid URL provided.'' st)
      else if scrapingControllers st chatId \<noteq> None then
        (AlreadyRunning,
         sendMessage chatId already_running st)
      else
        let r = length (tokens st);
            st1 = emit (NewToken r)
                    (st\<lparr>tokens := tokens st @ [False],
                        scrapingControllers := (scrapingControllers st)(chatId \<mapsto> r)\<rparr>)
        in (Admitted r, emit (LogInfo (''Received scraping request for URL: '' @ url)) st1))"

text \<open>Commands of the operators that the event loop handles while a session is suspended
  at an \<open>await\<close>. A session that such a command admits runs on its own; only its
  admission is followed here.\<close>

fun handle :: "config \<Rightarrow> command \<Rightarrow> bot \<Rightarrow> bot" where
  "handle cfg (StartCmd c) st = start_handler c st"
| "handle cfg (ScrapeCmd c u) st = snd (admit cfg c (trim u) st)"
| "handle cfg (StopCmd c) st = stop_handler c st"

definition handle_all :: "config \<Rightarrow> command list \<Rightarrow> bot \<Rightarrow> bot" where
  "handle_all cfg cs st = foldl (\<lambda>s c. handle cfg c s) st cs"

section \<open>The scraping session\<close>

text \<open>What the world does during one iteration of the loop: how the navigation promise
  settles, whether the two \<open>page.evaluate\<close> calls are rejected and what they run on, and
  which commands arrive while the attempt is in flight and during the retry sleep.\<close>

record attempt =
  goto :: "unit promise"
  scroll_eval :: "document settled"
  query_eval :: "element list settled"
  cmds_in_flight :: "command list"
  cmds_in_sleep :: "command list"

record world =
  launch :: "unit settled"
  newPage :: "unit settled"
  setUserAgent :: "unit settled"
  cmds_in_launch :: "command list"
  attempts :: "attempt list"
  close :: "unit settled"

text \<open>\<open>cancellationToken && cancellationToken.cancelled\<close>; the token may be absent.\<close>

definition is_cancelled :: "ref option \<Rightarrow> bot \<Rightarrow> bool" where
  "is_cancelled tok st =
     (case tok of None \<Rightarrow> False | Some r \<Rightarrow> r < length (tokens st) \<and> tokens st ! r)"

text \<open>
  The body of the inner \<open>try\<close>:
  \<^verbatim>\<open>
  logger.info(`Navigating to ${url}`);
  await withTimeout(page.goto(url, { waitUntil: 'networkidle2' }), PAGE_TIMEOUT,
                    'Page navigation timed out');
  await new Promise(r => setTimeout(r, 1000));
  await autoScroll(page);
  await new Promise(r => setTimeout(r, 2000));
  const data = await page.evaluate(() => { ... });
  \<close>
  The result is \<open>None\<close> when the body never completes (the scroll loop never ends),
  \<open>Some (Rejected m)\<close> when it throws, and \<open>Some (Fulfilled data)\<close> otherwise.
\<close>

definition after_scroll :: "attempt \<Rightarrow> bot \<Rightarrow> button_data option settled option \<times> bot" where
  "after_scroll a st3 =
     (let st4 = emit Query (emit (Pause 2000) st3)
      in (case query_eval a of
            Rejected m \<Rightarrow> (Some (Rejected m), st4)
          | Fulfilled nodes \<Rightarrow> (Some (Fulfilled (extractData nodes)), st4)))"

definition after_goto :: "attempt \<Rightarrow> bot \<Rightarrow> button_data option settled option \<times> bot" where
  "after_goto a st2 =
     (let st3 = emit Scroll (emit (Pause 1000) st2)
      in (case scroll_eval a of
            Rejected m \<Rightarrow> (Some (Rejected m), st3)
          | Fulfilled doc \<Rightarrow>
              (case autoScroll doc of
                 None \<Rightarrow> (None, st3)
               | Some ticks \<Rightarrow> after_scroll a st3)))"

definition attempt_body ::
  "config \<Rightarrow> string \<Rightarrow> attempt \<Rightarrow> bot \<Rightarrow> button_data option settled option \<times> bot" where
  "attempt_body cfg url a st =
     (let st1 = emit (Goto url) (emit (LogInfo (''Navigating to '' @ url)) st);
          st2 = handle_all cfg (cmds_in_flight a) st1
      in (case withTimeout (goto a) (nat (PAGE_TIMEOUT cfg)) ''Page navigation timed out'' of
            Rejected m \<Rightarrow> (Some (Rejected m), st2)
          | Fulfilled u \<Rightarrow> after_goto a st2))"

text \<open>\<open>await new Promise((resolve) => setTimeout(resolve, RETRY_DELAY))\<close>\<close>

definition retry_sleep :: "config \<Rightarrow> attempt \<Rightarrow> bot \<Rightarrow> bot" where
  "retry_sleep cfg a st = handle_all cfg (cmds_in_sleep a) (emit (Pause (RETRY_DELAY cfg)) st)"

text \<open>
  The \<open>while (true)\<close> loop, one equation per iteration. The scripted attempts are the
  iterations the world is observed for; the result is \<open>None\<close> when the loop is still
  running after them (or is stuck in an attempt that never completes), \<open>Some\<close> of the
  value returned or of the message of the error thrown otherwise.
\<close>

fun scrape_loop ::
  "config \<Rightarrow> string \<Rightarrow> ref option \<Rightarrow> attempt list \<Rightarrow> bot \<Rightarrow> button_data settled option \<times> bot" where
  "scrape_loop cfg url tok [] st =
     (if is_cancelled tok st then
        (Some (Rejected ''Scraping stopped by user.''),
         emit (LogInfo ''Scraping cancelled by user.'') st)
      else (None, st))"
| "scrape_loop cfg url tok (a # as) st =
     (if is_cancelled tok st then
        (Some (Rejected ''Scraping stopped by user.''),
         emit (LogInfo ''Scraping cancelled by user.'') st)
      else
        case attempt_body cfg url a st of
          (None, st') \<Rightarrow> (None, st')
        | (Some (Fulfilled (Some data)), st') \<Rightarrow>
            (Some (Fulfilled data), emit (LogInfo ''Button found.'') st')
        | (Some (Fulfilled None), st') \<Rightarrow>
            scrape_loop cfg url tok as
              (retry_sleep cfg a
                 (emit (LogInfo ''Button not found or is hidden. Retrying in 5 seconds...'') st'))
        | (Some (Rejected m), st') \<Rightarrow>
            scrape_loop cfg url tok as
              (retry_sleep cfg a (emit (LogError (''Error during scraping attempt: '' @ m)) st')))"

text \<open>
  \<^verbatim>\<open>
  let browser;
  try {
    browser = await puppeteer.launch({...});
    const page = await browser.newPage();
    await page.setUserAgent(...);
    while (true) { ... }
  } finally {
    if (browser) { await browser.close(); }
  }
  \<close>
  An error thrown by \<open>browser.close()\<close> in the \<open>finally\<close> block replaces the outcome of
  the \<open>try\<close> block.
\<close>

definition try_body ::
  "config \<Rightarrow> world \<Rightarrow> string \<Rightarrow> ref option \<Rightarrow> bot \<Rightarrow> button_data settled option \<times> bot" where
  "try_body cfg w url tok st1 =
     (case newPage w of
        Rejected m \<Rightarrow> (Some (Rejected m), emit NewPage st1)
      | Fulfilled _ \<Rightarrow>
          (case setUserAgent w of
             Rejected m \<Rightarrow> (Some (Rejected m), emit SetUserAgent (emit NewPage st1))
           | Fulfilled _ \<Rightarrow>
               scrape_loop cfg url tok (attempts w) (emit SetUserAgent (emit NewPage st1))))"

definition finally_close ::
  "world \<Rightarrow> button_data settled option \<Rightarrow> bot \<Rightarrow> button_data settled option \<times> bot" where
  "finally_close w r st2 =
     (case r of
        None \<Rightarrow> (None, st2)
      | Some out \<Rightarrow>
          (case close w of
             Rejected m \<Rightarrow> (Some (Rejected m), emit Close st2)
           | Fulfilled _ \<Rightarrow> (Some out, emit Close st2)))"

definition scrapeUntilButtonFound ::
  "config \<Rightarrow> world \<Rightarrow> string \<Rightarrow> ref option \<Rightarrow> bot \<Rightarrow> button_data settled option \<times> bot" where
  "scrapeUntilButtonFound cfg w url tok st =
     (let st1 = handle_all cfg (cmds_in_launch w) (emit Launch st)
      in case launch w of
           Rejected m \<Rightarrow> (Some (Rejected m), st1)
         | Fulfilled _ \<Rightarrow>
             (case try_body cfg w url tok st1 of (r, st2) \<Rightarrow> finally_close w r st2))"

section \<open>The \<open>/scrape\<close> handler\<close>

definition show_attr :: "string option \<Rightarrow> string" where
  "show_attr v = (case v of None \<Rightarrow> ''null'' | Some s \<Rightarrow> s)"

definition found_message :: "button_data \<Rightarrow> string" where
  "found_message d =
     ''Button found!'' @ [CHR 0x0A] @ ''Text: '' @ data_text d @ [CHR 0x0A] @
     ''Aria Label: '' @ show_attr (data_ariaLabel d) @ [CHR 0x0A] @
     ''Data Link: '' @ show_attr (data_dataLink d)"

definition delete_controller :: "chat_id \<Rightarrow> bot \<Rightarrow> bot" where
  "delete_controller chatId st =
     emit (Delete chatId) (st\<lparr>scrapingControllers := (scrapingControllers st)(chatId := None)\<rparr>)"

datatype handled = Refused admission | Running | Finished "button_data settled"

text \<open>
  \<^verbatim>\<open>
  try {
    const data = await scrapeUntilButtonFound(url, cancellationToken);
    bot.sendMessage(chatId, `Button found!\nText: ...`);
  } catch (error) {
    logger.error('Scraping stopped:', error.message);
    bot.sendMessage(chatId, `Scraping stopped: ${error.message}`);
    console.log(error)
  } finally {
    delete scrapingControllers[chatId];
  }
  \<close>
  \<open>Running\<close> is the handler still suspended at its \<open>await\<close> after the scripted
  attempts.
\<close>

definition scrape_handler ::
  "config \<Rightarrow> world \<Rightarrow> chat_id \<Rightarrow> string \<Rightarrow> bot \<Rightarrow> handled \<times> bot" where
  "scrape_handler cfg w chatId raw st =
     (let url = trim raw
      in case admit cfg chatId url st of
           (Admitted r, st1) \<Rightarrow>
             (case scrapeUntilButtonFound cfg w url (Some r) st1 of
                (None, st2) \<Rightarrow> (Running, st2)
              | (Some (Fulfilled d), st2) \<Rightarrow>
                  (Finished (Fulfilled d),
                   delete_controller chatId (sendMessage chatId (found_message d) st2))
              | (Some (Rejected m), st2) \<Rightarrow>
                  (Finished (Rejected m),
                   delete_controller chatId
                     (sendMessage chatId (''Scraping stopped: '' @ m)
                        (emit (LogError ''Scraping stopped:'') st2))))
         | (refusal, st1) \<Rightarrow> (Refused refusal, st1))"

text \<open>The events a run appends to the log of the state it started from.\<close>

definition new_events :: "bot \<Rightarrow> bot \<Rightarrow> event list" where
  "new_events st st' = drop (length (events st)) (events st')"

definition count_event :: "event \<Rightarrow> event list \<Rightarrow> nat" where
  "count_event e es = length (filter (\<lambda>x. x = e) es)"

fun is_Goto :: "event \<Rightarrow> bool" where
  "is_Goto (Goto u) = True"
| "is_Goto _ = False"

definition navigations :: "event list \<Rightarrow> nat" where
  "navigations es = length (filter is_Goto es)"

section \<open>Predicates on event logs\<close>

text \<open>Events that neither drive the browser's lifecycle nor navigate nor touch the
  controller map: what command handlers, pauses, scrolling, querying and logging emit.\<close>

fun inert :: "event \<Rightarrow> bool" where
  "inert Launch = False"
| "inert NewPage = False"
| "inert SetUserAgent = False"
| "inert (Goto u) = False"
| "inert Close = False"
| "inert (Delete c) = False"
| "inert _ = True"

text \<open>No navigation is issued after the first event that sets token \<open>r\<close>.\<close>

fun quiet_after :: "ref \<Rightarrow> event list \<Rightarrow> bool" where
  "quiet_after r [] = True"
| "quiet_after r (e # es) = (if e = SetCancelled r then navigations es = 0 else quiet_after r es)"

text \<open>A stretch of execution that emits inert events only, keeps token \<open>r\<close> allocated,
  never clears its flag, and leaves the flag set whenever it logged setting it.\<close>

definition inert_step :: "ref \<Rightarrow> bot \<Rightarrow> bot \<Rightarrow> bool" where
  "inert_step r st st' =
     (r < length (tokens st) \<and> r < length (tokens st') \<and>
      (is_cancelled (Some r) st \<longrightarrow> is_cancelled (Some r) st') \<and>
      (\<exists>es. events st' = events st @ es \<and> (\<forall>e\<in>set es. inert e) \<and>
            (SetCancelled r \<in> set es \<longrightarrow> is_cancelled (Some r) st')))"

text \<open>The events that the command handlers emit.\<close>

fun handler_event :: "event \<Rightarrow> bool" where
  "handler_event (SendMessage c m) = True"
| "handler_event (SetCancelled r) = True"
| "handler_event (NewToken r) = True"
| "handler_event (LogInfo m) = True"
| "handler_event _ = False"

text \<open>A run from \<open>st\<close> to \<open>st'\<close> only appends events, all of them satisfying \<open>P\<close>.\<close>

definition grows :: "(event \<Rightarrow> bool) \<Rightarrow> bot \<Rightarrow> bot \<Rightarrow> bool" where
  "grows P st st' = (\<exists>es. events st' = events st @ es \<and> list_all P es)"

text \<open>The events the polling loop can emit: everything except the browser's lifecycle and
  the removal of a controller.\<close>

fun loop_event :: "event \<Rightarrow> bool" where
  "loop_event Launch = False"
| "loop_event NewPage = False"
| "loop_event SetUserAgent = False"
| "loop_event Close = False"
| "loop_event (Delete c) = False"
| "loop_event _ = True"

text \<open>The events of the \<open>try\<close> block of a session after the launch.\<close>

fun body_event :: "event \<Rightarrow> bool" where
  "body_event Launch = False"
| "body_event Close = False"
| "body_event (Delete c) = False"
| "body_event _ = True"

section \<open>Notions used in the statements\<close>

text \<open>The state once \<open>puppeteer.launch\<close> has settled.\<close>

definition after_launch :: "config \<Rightarrow> world \<Rightarrow> bot \<Rightarrow> bot" where
  "after_launch cfg w st = handle_all cfg (cmds_in_launch w) (emit Launch st)"

text \<open>The state in which the \<open>/scrape\<close> handler starts the session: the fresh token is
  stored under the conversation and the request is logged.\<close>

definition admitted_state :: "chat_id \<Rightarrow> string \<Rightarrow> bot \<Rightarrow> bot" where
  "admitted_state chatId url st =
     emit (LogInfo (''Received scraping request for URL: '' @ url))
       (emit (NewToken (length (tokens st)))
          (st\<lparr>tokens := tokens st @ [False],
              scrapingControllers := (scrapingControllers st)(chatId \<mapsto> length (tokens st))\<rparr>))"

text \<open>The final message the \<open>/scrape\<close> handler sends for an outcome of the session.\<close>

definition outcome_message :: "button_data settled \<Rightarrow> string" where
  "outcome_message out =
     (case out of Fulfilled d \<Rightarrow> found_message d | Rejected m \<Rightarrow> ''Scraping stopped: '' @ m)"

text \<open>What the body of the inner \<open>try\<close> yields, as a function of the world alone.\<close>

definition attempt_outcome :: "config \<Rightarrow> attempt \<Rightarrow> button_data option settled option" where
  "attempt_outcome cfg a =
     (case withTimeout (goto a) (nat (PAGE_TIMEOUT cfg)) ''Page navigation timed out'' of
        Rejected m \<Rightarrow> Some (Rejected m)
      | Fulfilled u \<Rightarrow>
          (case scroll_eval a of
             Rejected m \<Rightarrow> Some (Rejected m)
           | Fulfilled doc \<Rightarrow>
               (case autoScroll doc of
                  None \<Rightarrow> None
                | Some ticks \<Rightarrow>
                    (case query_eval a of
                       Rejected m \<Rightarrow> Some (Rejected m)
                     | Fulfilled nodes \<Rightarrow> Some (Fulfilled (extractData nodes))))))"

text \<open>The ways an attempt can go, in terms of what the world does. The navigation times
  out when \<open>page.goto\<close> has not settled before the timer; it is rejected when the renderer
  throws before that.\<close>

definition navigation_timed_out :: "config \<Rightarrow> attempt \<Rightarrow> bool" where
  "navigation_timed_out cfg a =
     (case goto a of Never \<Rightarrow> True | Settles t r \<Rightarrow> nat (PAGE_TIMEOUT cfg) \<le> t)"

definition navigation_rejected :: "config \<Rightarrow> attempt \<Rightarrow> string \<Rightarrow> bool" where
  "navigation_rejected cfg a m =
     (case goto a of Never \<Rightarrow> False | Settles t r \<Rightarrow> t < nat (PAGE_TIMEOUT cfg) \<and> r = Rejected m)"

definition navigated :: "config \<Rightarrow> attempt \<Rightarrow> bool" where
  "navigated cfg a =
     (case goto a of Never \<Rightarrow> False | Settles t r \<Rightarrow> t < nat (PAGE_TIMEOUT cfg) \<and> r = Fulfilled ())"

definition scrolled :: "attempt \<Rightarrow> bool" where
  "scrolled a = (case scroll_eval a of Rejected m \<Rightarrow> False | Fulfilled doc \<Rightarrow> autoScroll doc \<noteq> None)"

text \<open>An attempt fails with message \<open>m\<close>: the navigation timed out, or the renderer threw
  during navigation, scrolling or extraction.\<close>

definition attempt_fails :: "config \<Rightarrow> attempt \<Rightarrow> string \<Rightarrow> bool" where
  "attempt_fails cfg a m =
     ((navigation_timed_out cfg a \<and> m = ''Page navigation timed out'') \<or>
      navigation_rejected cfg a m \<or>
      (navigated cfg a \<and> scroll_eval a = Rejected m) \<or>
      (navigated cfg a \<and> scrolled a \<and> query_eval a = Rejected m))"



section \<open>Example inputs\<close>

definition default_config :: config where
  "default_config = \<lparr>RETRY_DELAY_MS = None, PAGE_TIMEOUT_MS = None, valid_url = (\<lambda>u. u \<noteq> [])\<rparr>"

definition empty_bot :: bot where
  "empty_bot = \<lparr>scrapingControllers = Map.empty, tokens = [], events = []\<rparr>"

text \<open>A state whose only token is already set.\<close>

definition cancelled_bot :: bot where
  "cancelled_bot = \<lparr>scrapingControllers = [7 \<mapsto> 0], tokens = [True], events = []\<rparr>"

text \<open>A state with one running session, for conversation 7, whose token is not set.\<close>

definition running_bot :: bot where
  "running_bot = \<lparr>scrapingControllers = [7 \<mapsto> 0], tokens = [False], events = []\<rparr>"

definition short_page :: document where
  "short_page = \<lparr>scrollHeightAt = (\<lambda>k. 900), innerHeight = 600\<rparr>"



definition order_button :: element where
  "order_button = \<lparr>classList = [''order__button'', ''btn-main''], textContent = '' Buy '',
                    aria_label = Some ''Buy now'', data_link = None\<rparr>"

definition hidden_button :: element where
  "hidden_button = order_button\<lparr>classList := [''order__button'', ''btn-main'', ''hide'']\<rparr>"

definition attempt_found :: attempt where
  "attempt_found = \<lparr>goto = Settles 1200 (Fulfilled ()), scroll_eval = Fulfilled short_page,
                     query_eval = Fulfilled [order_button], cmds_in_flight = [], cmds_in_sleep = []\<rparr>"

definition attempt_hidden_then_stop :: attempt where
  "attempt_hidden_then_stop =
     \<lparr>goto = Settles 1200 (Fulfilled ()), scroll_eval = Fulfilled short_page,
      query_eval = Fulfilled [hidden_button], cmds_in_flight = [], cmds_in_sleep = [StopCmd 7]\<rparr>"

definition attempt_timeout :: attempt where
  "attempt_timeout = \<lparr>goto = Never, scroll_eval = Fulfilled short_page,
                       query_eval = Fulfilled [order_button], cmds_in_flight = [], cmds_in_sleep = []\<rparr>"

definition world_with :: "unit settled \<Rightarrow> attempt list \<Rightarrow> world" where
  "world_with l as = \<lparr>launch = l, newPage = Fulfilled (), setUserAgent = Fulfilled (),
                       cmds_in_launch = [], attempts = as, close = Fulfilled ()\<rparr>"

text \<open>Three worlds, one for each way a session ends: the button is there at the first
  attempt; it is hidden and the operator sends \<open>/stop\<close> during the retry sleep; the browser
  cannot be launched.\<close>

definition world_found :: world where
  "world_found = world_with (Fulfilled ()) [attempt_found]"

definition world_stopped :: world where
  "world_stopped = world_with (Fulfilled ()) [attempt_hidden_then_stop, attempt_found]"

definition world_launch_fails :: world where
  "world_launch_fails = world_with (Rejected ''no chrome'') [attempt_found]"

text \<open>How often the handler of a session for conversation 7, started in the empty state,
  deletes the controller of that conversation.\<close>

definition deletions :: "world \<Rightarrow> nat" where
  "deletions w =
     count_event (Delete 7)
       (new_events empty_bot
          (snd (scrape_handler default_config w 7 ''http://shop/item'' empty_bot)))"

section \<open>Basic facts about states and handlers\<close>

lemma events_emit: "events (emit e st) = events st @ [e]"
  by (simp add: emit_def)

lemma tokens_emit: "tokens (emit e st) = tokens st"
  by (simp add: emit_def)

lemma controllers_emit: "scrapingControllers (emit e st) = scrapingControllers st"
  by (simp add: emit_def)

lemma is_cancelled_emit: "is_cancelled tok (emit e st) = is_cancelled tok st"
  by (simp add: is_cancelled_def tokens_emit split: option.splits)

lemma list_update_True_keeps: "r < length xs \<Longrightarrow> xs ! r \<Longrightarrow> xs[q := True] ! r"
  by (cases "q = r") simp_all

lemma handle_cancelled:
  "is_cancelled tok st \<Longrightarrow> is_cancelled tok (handle cfg c st)"
  by (cases c)
     (auto simp: start_handler_def stop_handler_def admit_def sendMessage_def emit_def Let_def
        is_cancelled_def nth_append list_update_True_keeps split: option.splits)

lemma handle_all_cancelled:
  "is_cancelled tok st \<Longrightarrow> is_cancelled tok (handle_all cfg cs st)"
  unfolding handle_all_def
  by (induction cs arbitrary: st) (auto intro: handle_cancelled)

lemma handle_tokens_length: "length (tokens st) \<le> length (tokens (handle cfg c st))"
  by (cases c)
     (auto simp: start_handler_def stop_handler_def admit_def sendMessage_def emit_def Let_def
        split: option.splits)

lemma handle_controller_kept:
  "scrapingControllers st c = Some r \<Longrightarrow> scrapingControllers (handle cfg cmd st) c = Some r"
  by (cases cmd)
     (auto simp: start_handler_def stop_handler_def admit_def sendMessage_def emit_def Let_def
        split: option.splits)

lemma handle_all_controller_kept:
  "scrapingControllers st c = Some r \<Longrightarrow> scrapingControllers (handle_all cfg cs st) c = Some r"
  unfolding handle_all_def
  by (induction cs arbitrary: st) (auto intro: handle_controller_kept)

lemma inert_step_refl: "r < length (tokens st) \<Longrightarrow> inert_step r st st"
  by (simp add: inert_step_def)

lemma inert_step_trans:
  assumes "inert_step r st st'" and "inert_step r st' st''"
  shows "inert_step r st st''"
proof -
  obtain es where es: "events st' = events st @ es" "\<forall>e\<in>set es. inert e"
    "SetCancelled r \<in> set es \<longrightarrow> is_cancelled (Some r) st'"
    using assms(1) unfolding inert_step_def by blast
  obtain es' where es': "events st'' = events st' @ es'" "\<forall>e\<in>set es'. inert e"
    "SetCancelled r \<in> set es' \<longrightarrow> is_cancelled (Some r) st''"
    using assms(2) unfolding inert_step_def by blast
  have keep: "is_cancelled (Some r) st' \<longrightarrow> is_cancelled (Some r) st''"
    using assms(2) unfolding inert_step_def by blast
  have "events st'' = events st @ (es @ es')" using es(1) es'(1) by simp
  moreover have "\<forall>e\<in>set (es @ es'). inert e" using es(2) es'(2) by auto
  moreover have "SetCancelled r \<in> set (es @ es') \<longrightarrow> is_cancelled (Some r) st''"
    using es(3) es'(3) keep by auto
  ultimately have "\<exists>zs. events st'' = events st @ zs \<and> (\<forall>e\<in>set zs. inert e) \<and>
      (SetCancelled r \<in> set zs \<longrightarrow> is_cancelled (Some r) st'')"
    by blast
  then show ?thesis
    using assms keep unfolding inert_step_def by blast
qed

lemma inert_step_emit:
  "r < length (tokens st) \<Longrightarrow> inert e \<Longrightarrow> e \<noteq> SetCancelled r \<Longrightarrow> inert_step r st (emit e st)"
  by (simp add: inert_step_def events_emit tokens_emit is_cancelled_emit)

lemma inert_step_handle:
  assumes "r < length (tokens st)"
  shows "inert_step r st (handle cfg c st)"
proof -
  have 1: "r < length (tokens (handle cfg c st))"
    using assms handle_tokens_length [of st cfg c] by simp
  have 2: "is_cancelled (Some r) st \<longrightarrow> is_cancelled (Some r) (handle cfg c st)"
    by (simp add: handle_cancelled)
  have 3: "\<exists>es. events (handle cfg c st) = events st @ es \<and> (\<forall>e\<in>set es. inert e) \<and>
            (SetCancelled r \<in> set es \<longrightarrow> is_cancelled (Some r) (handle cfg c st))"
    using assms
    by (cases c)
       (auto simp: start_handler_def stop_handler_def admit_def sendMessage_def emit_def Let_def
          is_cancelled_def split: option.splits)
  show ?thesis using assms 1 2 3 unfolding inert_step_def by blast
qed

lemma inert_step_handle_all:
  "r < length (tokens st) \<Longrightarrow> inert_step r st (handle_all cfg cs st)"
proof (induction cs arbitrary: st)
  case Nil
  then show ?case by (simp add: handle_all_def inert_step_refl)
next
  case (Cons c cs)
  have a: "inert_step r st (handle cfg c st)" using Cons.prems by (rule inert_step_handle)
  then have "r < length (tokens (handle cfg c st))" by (simp add: inert_step_def)
  then have b: "inert_step r (handle cfg c st) (handle_all cfg cs (handle cfg c st))"
    by (rule Cons.IH)
  have "handle_all cfg (c # cs) st = handle_all cfg cs (handle cfg c st)"
    by (simp add: handle_all_def)
  with inert_step_trans [OF a b] show ?case by simp
qed

lemma inert_navigations: "\<forall>e\<in>set es. inert e \<Longrightarrow> navigations es = 0"
proof -
  have "is_Goto e \<Longrightarrow> \<not> inert e" for e by (cases e) simp_all
  then show "\<forall>e\<in>set es. inert e \<Longrightarrow> navigations es = 0"
    by (auto simp: navigations_def filter_empty_conv)
qed

lemma navigations_append: "navigations (xs @ ys) = navigations xs + navigations ys"
  by (simp add: navigations_def)

lemma quiet_no_navigation: "navigations es = 0 \<Longrightarrow> quiet_after r es"
  by (induction es) (auto simp: navigations_def split: if_splits)

lemma quiet_append_absent:
  "SetCancelled r \<notin> set xs \<Longrightarrow> quiet_after r (xs @ ys) = quiet_after r ys"
  by (induction xs) auto

lemma quiet_append_still:
  "quiet_after r xs \<Longrightarrow> navigations ys = 0 \<Longrightarrow> quiet_after r (xs @ ys)"
  by (induction xs) (auto simp: navigations_append quiet_no_navigation)

lemma quiet_afterD:
  "quiet_after r es \<Longrightarrow> es = xs @ SetCancelled r # ys \<Longrightarrow> navigations ys = 0"
proof (induction xs arbitrary: es)
  case Nil
  then show ?case by simp
next
  case (Cons x xs)
  show ?case
  proof (cases "x = SetCancelled r")
    case True
    with Cons.prems have "navigations (xs @ SetCancelled r # ys) = 0" by simp
    then show ?thesis by (simp add: navigations_def)
  next
    case False
    with Cons.prems have "quiet_after r (xs @ SetCancelled r # ys)" by simp
    then show ?thesis using Cons.IH by blast
  qed
qed

lemma scrape_loop_cancelled:
  "is_cancelled tok st \<Longrightarrow>
   scrape_loop cfg url tok as st =
     (Some (Rejected ''Scraping stopped by user.''),
      emit (LogInfo ''Scraping cancelled by user.'') st)"
  by (cases as) simp_all

lemma attempt_body_states:
  assumes "attempt_body cfg url a st = (res, st')"
  defines "st2 \<equiv> handle_all cfg (cmds_in_flight a)
                    (emit (Goto url) (emit (LogInfo (''Navigating to '' @ url)) st))"
  shows "st' = st2 \<or> st' = emit Scroll (emit (Pause 1000) st2) \<or>
         st' = emit Query (emit (Pause 2000) (emit Scroll (emit (Pause 1000) st2)))"
  using assms(1) unfolding st2_def attempt_body_def after_goto_def after_scroll_def Let_def
  by (auto split: settled.splits option.splits)

lemma attempt_body_step:
  assumes "r < length (tokens st)" and "attempt_body cfg url a st = (res, st')"
  shows "inert_step r (emit (Goto url) (emit (LogInfo (''Navigating to '' @ url)) st)) st'"
proof -
  let ?g = "emit (Goto url) (emit (LogInfo (''Navigating to '' @ url)) st)"
  let ?st2 = "handle_all cfg (cmds_in_flight a) ?g"
  let ?st3 = "emit Scroll (emit (Pause 1000) ?st2)"
  let ?st4 = "emit Query (emit (Pause 2000) ?st3)"
  have g: "r < length (tokens ?g)" using assms(1) by (simp add: tokens_emit)
  have s2: "inert_step r ?g ?st2" using g by (rule inert_step_handle_all)
  have l2: "r < length (tokens ?st2)" using s2 by (simp add: inert_step_def)
  have "inert_step r ?st2 (emit (Pause 1000) ?st2)"
    using l2 by (intro inert_step_emit) simp_all
  moreover have "inert_step r (emit (Pause 1000) ?st2) ?st3"
    using l2 by (intro inert_step_emit) (simp_all add: tokens_emit)
  ultimately have s23: "inert_step r ?st2 ?st3" by (rule inert_step_trans)
  have s3: "inert_step r ?g ?st3" using s2 s23 by (rule inert_step_trans)
  have l3: "r < length (tokens ?st3)" using s3 by (simp add: inert_step_def)
  have "inert_step r ?st3 (emit (Pause 2000) ?st3)"
    using l3 by (intro inert_step_emit) simp_all
  moreover have "inert_step r (emit (Pause 2000) ?st3) ?st4"
    using l3 by (intro inert_step_emit) (simp_all add: tokens_emit)
  ultimately have "inert_step r ?st3 ?st4" by (rule inert_step_trans)
  with s3 have s4: "inert_step r ?g ?st4" by (rule inert_step_trans)
  from attempt_body_states [OF assms(2)] s2 s3 s4 show ?thesis by auto
qed

lemma retry_sleep_step:
  assumes "r < length (tokens st)" and "inert e" and "e \<noteq> SetCancelled r"
  shows "inert_step r st (retry_sleep cfg a (emit e st))"
proof -
  have 1: "inert_step r st (emit e st)" using assms by (intro inert_step_emit)
  have l: "r < length (tokens (emit e st))" using assms(1) by (simp add: tokens_emit)
  have 2: "inert_step r (emit e st) (emit (Pause (RETRY_DELAY cfg)) (emit e st))"
    using l by (intro inert_step_emit) simp_all
  have "r < length (tokens (emit (Pause (RETRY_DELAY cfg)) (emit e st)))"
    using l by (simp add: tokens_emit)
  then have 3: "inert_step r (emit (Pause (RETRY_DELAY cfg)) (emit e st))
                  (retry_sleep cfg a (emit e st))"
    unfolding retry_sleep_def by (rule inert_step_handle_all)
  show ?thesis using 1 2 3 by (blast intro: inert_step_trans)
qed

lemma iteration_quiet:
  assumes step: "inert_step r g st2"
    and g: "events g = events st @ [LogInfo m, Goto url]"
    and rest: "events st' = events st2 @ es3" "quiet_after r es3"
              "\<forall>e\<in>set es3. inert e \<or> is_Goto e"
    and canc: "is_cancelled (Some r) st2 \<longrightarrow> navigations es3 = 0"
  shows "\<exists>es. events st' = events st @ es \<and> quiet_after r es \<and>
              (\<forall>e\<in>set es. inert e \<or> is_Goto e)"
proof -
  obtain es2 where es2: "events st2 = events g @ es2" "\<forall>e\<in>set es2. inert e"
    "SetCancelled r \<in> set es2 \<longrightarrow> is_cancelled (Some r) st2"
    using step unfolding inert_step_def by blast
  let ?es = "[LogInfo m, Goto url] @ es2 @ es3"
  have ev: "events st' = events st @ ?es" using es2(1) g rest(1) by simp
  have kinds: "\<forall>e\<in>set ?es. inert e \<or> is_Goto e" using es2(2) rest(3) by auto
  have "quiet_after r (es2 @ es3)"
  proof (cases "SetCancelled r \<in> set es2")
    case True
    then have "navigations es3 = 0" using es2(3) canc by blast
    then have "navigations (es2 @ es3) = 0"
      using inert_navigations [OF es2(2)] by (simp add: navigations_append)
    then show ?thesis by (rule quiet_no_navigation)
  next
    case False
    then show ?thesis using rest(2) by (simp add: quiet_append_absent)
  qed
  then have "quiet_after r ?es" by simp
  with ev kinds show ?thesis by blast
qed

lemma scrape_loop_trace:
  "r < length (tokens st) \<Longrightarrow> scrape_loop cfg url (Some r) as st = (res, st') \<Longrightarrow>
   r < length (tokens st') \<and>
   (\<exists>es. events st' = events st @ es \<and> quiet_after r es \<and> (\<forall>e\<in>set es. inert e \<or> is_Goto e))"
proof (induction as arbitrary: st)
  case Nil
  then show ?case
    by (auto simp: events_emit tokens_emit split: if_splits)
next
  case (Cons a as)
  show ?case
  proof (cases "is_cancelled (Some r) st")
    case True
    with Cons.prems show ?thesis
      by (auto simp: events_emit tokens_emit)
  next
    case False
    obtain ar st1 where ab: "attempt_body cfg url a st = (ar, st1)" by (cases "attempt_body cfg url a st")
    let ?g = "emit (Goto url) (emit (LogInfo (''Navigating to '' @ url)) st)"
    have g: "events ?g = events st @ [LogInfo (''Navigating to '' @ url), Goto url]"
      by (simp add: events_emit)
    have s1: "inert_step r ?g st1" using Cons.prems(1) ab by (rule attempt_body_step)
    have l1: "r < length (tokens st1)" using s1 by (simp add: inert_step_def)
    have fin: "r < length (tokens (emit e st1)) \<and>
       (\<exists>es. events (emit e st1) = events st @ es \<and> quiet_after r es \<and>
             (\<forall>x\<in>set es. inert x \<or> is_Goto x))" if "inert e" for e
    proof -
      have "navigations [e] = 0" using that by (intro inert_navigations) simp
      then have "\<exists>es. events (emit e st1) = events st @ es \<and> quiet_after r es \<and>
             (\<forall>x\<in>set es. inert x \<or> is_Goto x)"
        using that
        by (intro iteration_quiet [OF s1 g, where ?es3.0 = "[e]"])
           (simp_all add: events_emit navigations_def)
      then show ?thesis using l1 by (simp add: tokens_emit)
    qed
    have stuck: "r < length (tokens st1) \<and>
       (\<exists>es. events st1 = events st @ es \<and> quiet_after r es \<and>
             (\<forall>x\<in>set es. inert x \<or> is_Goto x))"
      using l1 by (intro conjI iteration_quiet [OF s1 g, where ?es3.0 = "[]"])
        (simp_all add: navigations_def)
    have cont: "r < length (tokens st') \<and>
       (\<exists>es. events st' = events st @ es \<and> quiet_after r es \<and>
             (\<forall>x\<in>set es. inert x \<or> is_Goto x))"
      if run: "scrape_loop cfg url (Some r) as (retry_sleep cfg a (emit e st1)) = (res, st')"
        and e: "inert e" "e \<noteq> SetCancelled r" for e
    proof -
      let ?st2 = "retry_sleep cfg a (emit e st1)"
      have s12: "inert_step r st1 ?st2" using l1 e by (rule retry_sleep_step)
      have s2: "inert_step r ?g ?st2" using s1 s12 by (rule inert_step_trans)
      have l2: "r < length (tokens ?st2)" using s2 by (simp add: inert_step_def)
      from Cons.IH [OF l2 run] obtain es3 where
        l': "r < length (tokens st')" and
        es3: "events st' = events ?st2 @ es3" "quiet_after r es3"
             "\<forall>x\<in>set es3. inert x \<or> is_Goto x"
        by blast
      have "navigations es3 = 0" if c: "is_cancelled (Some r) ?st2"
      proof -
        have "st' = emit (LogInfo ''Scraping cancelled by user.'') ?st2"
          using run scrape_loop_cancelled [OF c, of cfg url as] by simp
        then have "es3 = [LogInfo ''Scraping cancelled by user.'']"
          using es3(1) by (simp add: events_emit)
        then show ?thesis by (simp add: navigations_def)
      qed
      then have "is_cancelled (Some r) ?st2 \<longrightarrow> navigations es3 = 0" by blast
      with es3 have "\<exists>es. events st' = events st @ es \<and> quiet_after r es \<and>
             (\<forall>x\<in>set es. inert x \<or> is_Goto x)"
        by (rule iteration_quiet [OF s2 g])
      with l' show ?thesis by blast
    qed
    from Cons.prems(2) False ab show ?thesis
      using fin [of "LogInfo ''Button found.''"] stuck
        cont [of "LogInfo ''Button not found or is hidden. Retrying in 5 seconds...''"]
        cont [of "LogError (''Error during scraping attempt: '' @ m)" for m]
      by (auto split: option.splits settled.splits)
  qed
qed

lemma new_events_append: "events st' = events st @ es \<Longrightarrow> new_events st st' = es"
  by (simp add: new_events_def)

lemma handle_events:
  "\<exists>es. events (handle cfg c st) = events st @ es \<and> (\<forall>e\<in>set es. handler_event e)"
  by (cases c)
     (auto simp: start_handler_def stop_handler_def admit_def sendMessage_def emit_def Let_def
           split: option.splits)

lemma handle_all_events:
  "\<exists>es. events (handle_all cfg cs st) = events st @ es \<and> (\<forall>e\<in>set es. handler_event e)"
proof (induction cs arbitrary: st)
  case Nil
  show ?case by (simp add: handle_all_def)
next
  case (Cons c cs)
  obtain es1 where 1: "events (handle cfg c st) = events st @ es1" "\<forall>e\<in>set es1. handler_event e"
    using handle_events by blast
  obtain es2 where 2: "events (handle_all cfg cs (handle cfg c st)) = events (handle cfg c st) @ es2"
    "\<forall>e\<in>set es2. handler_event e"
    using Cons.IH by blast
  have "handle_all cfg (c # cs) st = handle_all cfg cs (handle cfg c st)"
    by (simp add: handle_all_def)
  with 1 2 show ?case by auto
qed

section \<open>What the loop appends to the log\<close>

lemma grows_refl: "grows P st st"
  by (simp add: grows_def)

lemma grows_trans: "grows P st st' \<Longrightarrow> grows P st' st'' \<Longrightarrow> grows P st st''"
  unfolding grows_def by (metis append.assoc list_all_append)

lemma grows_emit: "P e \<Longrightarrow> grows P st (emit e st)"
  by (simp add: grows_def events_emit)

lemma grows_emit_after: "grows P st st' \<Longrightarrow> P e \<Longrightarrow> grows P st (emit e st')"
  by (blast intro: grows_trans grows_emit)

lemma handler_event_loop: "handler_event e \<Longrightarrow> loop_event e"
  by (cases e) simp_all

lemma grows_handle_all: "grows handler_event st (handle_all cfg cs st)"
  using handle_all_events [of cfg cs st] by (auto simp: grows_def list_all_iff)

lemma grows_weaken: "grows P st st' \<Longrightarrow> (\<And>e. P e \<Longrightarrow> Q e) \<Longrightarrow> grows Q st st'"
  unfolding grows_def list_all_iff by blast

lemma grows_loop_handle_all: "grows loop_event st (handle_all cfg cs st)"
  by (rule grows_weaken [OF grows_handle_all]) (rule handler_event_loop)

lemma grows_after_handle_all:
  "grows loop_event st st' \<Longrightarrow> grows loop_event st (handle_all cfg cs st')"
  by (blast intro: grows_trans grows_loop_handle_all)

lemma attempt_body_grows:
  assumes "attempt_body cfg url a st = (res, st')"
  shows "grows loop_event st st'"
proof -
  let ?g = "emit (Goto url) (emit (LogInfo (''Navigating to '' @ url)) st)"
  let ?st2 = "handle_all cfg (cmds_in_flight a) ?g"
  let ?st3 = "emit Scroll (emit (Pause 1000) ?st2)"
  let ?st4 = "emit Query (emit (Pause 2000) ?st3)"
  have 2: "grows loop_event st ?st2"
    by (intro grows_after_handle_all grows_emit_after grows_refl) simp_all
  have 3: "grows loop_event st ?st3"
    by (intro grows_emit_after 2) simp_all
  have 4: "grows loop_event st ?st4"
    by (intro grows_emit_after 3) simp_all
  from attempt_body_states [OF assms] 2 3 4 show ?thesis by auto
qed

lemma retry_sleep_grows:
  "grows loop_event st st1 \<Longrightarrow> loop_event e \<Longrightarrow>
   grows loop_event st (retry_sleep cfg a (emit e st1))"
  unfolding retry_sleep_def
  by (intro grows_after_handle_all grows_emit_after) simp_all

lemma scrape_loop_grows:
  "scrape_loop cfg url tok as st = (res, st') \<Longrightarrow> grows loop_event st st'"
proof (induction as arbitrary: st)
  case Nil
  then show ?case by (auto simp: grows_refl intro: grows_emit split: if_splits)
next
  case (Cons a as)
  show ?case
  proof (cases "is_cancelled tok st")
    case True
    with Cons.prems show ?thesis by (auto intro: grows_emit)
  next
    case False
    obtain ar st1 where ab: "attempt_body cfg url a st = (ar, st1)"
      by (cases "attempt_body cfg url a st")
    have g1: "grows loop_event st st1" using ab by (rule attempt_body_grows)
    have cont: "grows loop_event st st'"
      if "scrape_loop cfg url tok as (retry_sleep cfg a (emit e st1)) = (res, st')"
        and "loop_event e" for e
      using retry_sleep_grows [OF g1 that(2)] Cons.IH [OF that(1)] by (rule grows_trans)
    from Cons.prems False ab show ?thesis
      using g1 grows_emit_after [OF g1, of "LogInfo ''Button found.''"]
        cont [of "LogInfo ''Button not found or is hidden. Retrying in 5 seconds...''"]
        cont [of "LogError (''Error during scraping attempt: '' @ m)" for m]
      by (auto split: option.splits settled.splits)
  qed
qed

lemma count_event_none: "list_all P es \<Longrightarrow> \<not> P e \<Longrightarrow> count_event e es = 0"
  by (auto simp: count_event_def list_all_iff filter_empty_conv)

lemma count_event_append: "count_event e (xs @ ys) = count_event e xs + count_event e ys"
  by (simp add: count_event_def)

lemma growsD:
  "grows P st st' \<Longrightarrow> events st' = events st @ new_events st st' \<and> list_all P (new_events st st')"
  by (auto simp: grows_def new_events_def)

section \<open>The deadline on navigation\<close>



section \<open>Admission\<close>

text \<open>
  Claim C2. When the controller map already holds an entry for the conversation, a
  \<open>/scrape\<close> command is refused whatever the world would do: with a well-formed URL the
  refusal is \<open>AlreadyRunning\<close> and the operator is sent the "already running" message
  (a malformed URL is refused as invalid before the admission check); the only event is
  that message, no token is created, and the controller map and every token are
  unchanged.
\<close>

theorem second_scrape_rejected:
  assumes "scrapingControllers st chatId = Some r"
    and "scrape_handler cfg w chatId raw st = (res, st')"
  shows "res = Refused (if valid_url cfg (trim raw) then AlreadyRunning else InvalidUrl) \<and>
         new_events st st' =
           [SendMessage chatId
              (if valid_url cfg (trim raw) then already_running else ''Invalid URL provided.'')] \<and>
         tokens st' = tokens st \<and>
         scrapingControllers st' = scrapingControllers st"
  using assms
  by (cases "valid_url cfg (trim raw)")
     (auto simp: scrape_handler_def admit_def sendMessage_def emit_def new_events_def)

theorem second_scrape_rejected_witness:
  "scrape_handler \<lparr>RETRY_DELAY_MS = None, PAGE_TIMEOUT_MS = None, valid_url = (\<lambda>u. True)\<rparr>
     \<lparr>launch = Fulfilled (), newPage = Fulfilled (), setUserAgent = Fulfilled (),
      cmds_in_launch = [], attempts = [], close = Fulfilled ()\<rparr>
     7 ''http://a''
     \<lparr>scrapingControllers = [7 \<mapsto> 0], tokens = [False], events = []\<rparr>
   = (Refused AlreadyRunning,
      \<lparr>scrapingControllers = [7 \<mapsto> 0], tokens = [False],
       events = [SendMessage 7 already_running]\<rparr>)"
proof -
  let ?cfg = "\<lparr>RETRY_DELAY_MS = None, PAGE_TIMEOUT_MS = None, valid_url = (\<lambda>u. True)\<rparr>"
  let ?w = "\<lparr>launch = Fulfilled (), newPage = Fulfilled (), setUserAgent = Fulfilled (),
      cmds_in_launch = [], attempts = [], close = Fulfilled ()\<rparr>"
  let ?st = "\<lparr>scrapingControllers = [7 \<mapsto> 0], tokens = [False], events = []\<rparr>"
  obtain res st' where run: "scrape_handler ?cfg ?w 7 ''http://a'' ?st = (res, st')"
    by (cases "scrape_handler ?cfg ?w 7 ''http://a'' ?st")
  have "scrapingControllers ?st 7 = Some 0" by simp
  from second_scrape_rejected [OF this run]
  have "res = Refused AlreadyRunning" "events st' = [SendMessage 7 already_running]"
    "tokens st' = [False]" "scrapingControllers st' = [7 \<mapsto> 0]"
    by (simp_all add: new_events_def)
  then have "st' = \<lparr>scrapingControllers = [7 \<mapsto> 0], tokens = [False],
       events = [SendMessage 7 already_running]\<rparr>"
    by (cases st') simp
  with run \<open>res = Refused AlreadyRunning\<close> show ?thesis by simp
qed

section \<open>The browser's lifecycle\<close>

lemma loop_event_body: "loop_event e \<Longrightarrow> body_event e"
  by (cases e) simp_all

lemma handler_event_body: "handler_event e \<Longrightarrow> body_event e"
  by (cases e) simp_all

lemma try_body_grows:
  assumes "try_body cfg w url tok st1 = (r, st2)"
  shows "grows body_event st1 st2"
proof -
  have a: "grows body_event st1 (emit NewPage st1)"
    by (intro grows_emit) simp
  have b: "grows body_event st1 (emit SetUserAgent (emit NewPage st1))"
    by (intro grows_emit_after a) simp
  have c: "grows body_event st1 st2"
    if "scrape_loop cfg url tok (attempts w) (emit SetUserAgent (emit NewPage st1)) = (r, st2)"
    using b grows_weaken [OF scrape_loop_grows [OF that] loop_event_body]
    by (rule grows_trans)
  from assms a b c show ?thesis
    by (auto simp: try_body_def split: settled.splits)
qed

lemma after_launch_events:
  "\<exists>es. events (after_launch cfg w st) = events st @ Launch # es \<and> list_all handler_event es"
  using handle_all_events [of cfg "cmds_in_launch w" "emit Launch st"]
  by (auto simp: after_launch_def events_emit list_all_iff)

lemma session_cases:
  assumes "scrapeUntilButtonFound cfg w url tok st = (res, st')"
  shows "(\<exists>m. launch w = Rejected m \<and> res = Some (Rejected m) \<and> st' = after_launch cfg w st) \<or>
         (\<exists>u st2. launch w = Fulfilled u \<and>
            try_body cfg w url tok (after_launch cfg w st) = (None, st2) \<and>
            res = None \<and> st' = st2) \<or>
         (\<exists>u st2 out. launch w = Fulfilled u \<and>
            try_body cfg w url tok (after_launch cfg w st) = (Some out, st2) \<and>
            res = Some (case close w of Rejected m \<Rightarrow> Rejected m | Fulfilled v \<Rightarrow> out) \<and>
            st' = emit Close st2)"
  using assms
  by (auto simp: scrapeUntilButtonFound_def after_launch_def finally_close_def Let_def
        split: settled.splits option.splits prod.splits)

lemma session_events:
  assumes "try_body cfg w url tok (after_launch cfg w st) = (r, st2)"
  shows "\<exists>es. events st2 = events st @ Launch # es \<and> list_all body_event es"
proof -
  obtain es1 where 1: "events (after_launch cfg w st) = events st @ Launch # es1"
    "list_all handler_event es1"
    using after_launch_events by blast
  obtain es2 where 2: "events st2 = events (after_launch cfg w st) @ es2" "list_all body_event es2"
    using try_body_grows [OF assms] unfolding grows_def by blast
  have "list_all body_event es1" using 1(2) handler_event_body by (auto simp: list_all_iff)
  then have "list_all body_event (es1 @ es2)" using 2(2) by simp
  moreover have "events st2 = events st @ Launch # (es1 @ es2)" using 1(1) 2(1) by simp
  ultimately show ?thesis by blast
qed

text \<open>
  Claim C8. Every run of \<open>scrapeUntilButtonFound\<close> launches once. When the launch
  succeeded and the function has exited (with the button's data, with the cancellation
  error or with any other error), \<open>browser.close()\<close> was called exactly once and is the
  last thing the function did; while the loop is still running it has not been called;
  when the launch itself failed the function exits with the launch error and
  \<open>close\<close> is never called.
\<close>

theorem browser_closed_once:
  assumes "scrapeUntilButtonFound cfg w url tok st = (res, st')"
  shows "count_event Launch (new_events st st') = 1 \<and>
         count_event Close (new_events st st') =
           (case launch w of
              Rejected m \<Rightarrow> 0
            | Fulfilled u \<Rightarrow> (case res of None \<Rightarrow> 0 | Some out \<Rightarrow> 1)) \<and>
         (case launch w of
            Rejected m \<Rightarrow> res = Some (Rejected m)
          | Fulfilled u \<Rightarrow> (case res of None \<Rightarrow> True | Some out \<Rightarrow> last (events st') = Close))"
proof -
  from session_cases [OF assms] consider
    (failed) m where "launch w = Rejected m" "res = Some (Rejected m)" "st' = after_launch cfg w st"
  | (running) u st2 where "launch w = Fulfilled u"
      "try_body cfg w url tok (after_launch cfg w st) = (None, st2)" "res = None" "st' = st2"
  | (exited) u st2 out where "launch w = Fulfilled u"
      "try_body cfg w url tok (after_launch cfg w st) = (Some out, st2)"
      "res = Some (case close w of Rejected m \<Rightarrow> Rejected m | Fulfilled v \<Rightarrow> out)"
      "st' = emit Close st2"
    by blast
  then show ?thesis
  proof cases
    case failed
    obtain es where es: "events st' = events st @ Launch # es" "list_all handler_event es"
      using after_launch_events failed(3) by blast
    have "new_events st st' = Launch # es" using es(1) by (simp add: new_events_def)
    moreover have "count_event Launch es = 0" "count_event Close es = 0"
      using es(2) by (simp_all add: count_event_none)
    ultimately show ?thesis using failed by (simp add: count_event_def)
  next
    case running
    obtain es where es: "events st' = events st @ Launch # es" "list_all body_event es"
      using session_events [OF running(2)] running(4) by blast
    have "new_events st st' = Launch # es" using es(1) by (simp add: new_events_def)
    moreover have "count_event Launch es = 0" "count_event Close es = 0"
      using es(2) by (simp_all add: count_event_none)
    ultimately show ?thesis using running by (simp add: count_event_def)
  next
    case exited
    obtain es where es: "events st2 = events st @ Launch # es" "list_all body_event es"
      using session_events [OF exited(2)] by blast
    have "new_events st st' = Launch # es @ [Close]"
      using es(1) exited(4) by (simp add: new_events_def events_emit)
    moreover have "count_event Launch es = 0" "count_event Close es = 0"
      using es(2) by (simp_all add: count_event_none)
    ultimately show ?thesis
      using exited by (simp add: count_event_def events_emit)
  qed
qed

theorem browser_closed_once_witness:
  "count_event Close (new_events empty_bot (snd (scrapeUntilButtonFound default_config
      (world_with (Fulfilled ()) [attempt_found]) ''http://shop/item'' None empty_bot))) = 1 \<and>
   count_event Close (new_events empty_bot (snd (scrapeUntilButtonFound default_config
      (world_with (Rejected ''no chrome'') [attempt_found]) ''http://shop/item'' None empty_bot))) = 0"
proof -
  let ?run = "\<lambda>l. scrapeUntilButtonFound default_config (world_with l [attempt_found])
                 ''http://shop/item'' None empty_bot"
  have found: "fst (?run (Fulfilled ())) =
      Some (Fulfilled \<lparr>data_text = ''Buy'', data_ariaLabel = Some ''Buy now'',
                        data_dataLink = None\<rparr>)"
    by code_simp
  have l: "launch (world_with l as) = l" for l as by (simp add: world_with_def)
  have ok: "?run (Fulfilled ()) = (fst (?run (Fulfilled ())), snd (?run (Fulfilled ())))"
    and bad: "?run (Rejected ''no chrome'') =
      (fst (?run (Rejected ''no chrome'')), snd (?run (Rejected ''no chrome'')))"
    by simp_all
  from browser_closed_once [OF ok] browser_closed_once [OF bad]
  show ?thesis by (simp add: l found)
qed

section \<open>Launch failure and a token set before the run\<close>

lemma handler_navigations: "list_all handler_event es \<Longrightarrow> navigations es = 0"
proof -
  have "is_Goto e \<Longrightarrow> \<not> handler_event e" for e by (cases e) simp_all
  then show "list_all handler_event es \<Longrightarrow> navigations es = 0"
    by (auto simp: navigations_def filter_empty_conv list_all_iff)
qed

lemma after_launch_cancelled: "is_cancelled tok st \<Longrightarrow> is_cancelled tok (after_launch cfg w st)"
  by (simp add: after_launch_def handle_all_cancelled is_cancelled_emit)

lemma after_launch_controller:
  "scrapingControllers st c = Some r \<Longrightarrow> scrapingControllers (after_launch cfg w st) c = Some r"
  by (simp add: after_launch_def handle_all_controller_kept controllers_emit)

lemma admit_fresh:
  "scrapingControllers st chatId = None \<Longrightarrow> valid_url cfg url \<Longrightarrow>
   admit cfg chatId url st = (Admitted (length (tokens st)), admitted_state chatId url st)"
  by (simp add: admit_def admitted_state_def Let_def)

lemma admitted_state_simps:
  "events (admitted_state chatId url st) =
     events st @ [NewToken (length (tokens st)),
                  LogInfo (''Received scraping request for URL: '' @ url)]"
  "tokens (admitted_state chatId url st) = tokens st @ [False]"
  "scrapingControllers (admitted_state chatId url st) chatId = Some (length (tokens st))"
  by (simp_all add: admitted_state_def emit_def)

lemma session_launch_failed:
  "launch w = Rejected m \<Longrightarrow>
   scrapeUntilButtonFound cfg w url tok st = (Some (Rejected m), after_launch cfg w st)"
  by (simp add: scrapeUntilButtonFound_def after_launch_def)

text \<open>
  Claim C4. When \<open>puppeteer.launch\<close> is rejected with message \<open>m\<close>, the session ends at
  once with that error, whatever attempts the world would have served: besides the launch
  and what command handlers emitted while it was awaited nothing happened, so there was
  no navigation, no retry sleep and no per-attempt error log. The \<open>/scrape\<close> handler that
  admitted the session reports \<open>Scraping stopped: m\<close> and removes its controller.
\<close>

theorem launch_failure_is_fatal:
  assumes "launch w = Rejected m"
  shows "scrapeUntilButtonFound cfg w url tok st = (Some (Rejected m), after_launch cfg w st) \<and>
         (\<exists>es. new_events st (after_launch cfg w st) = Launch # es \<and> list_all handler_event es) \<and>
         navigations (new_events st (after_launch cfg w st)) = 0 \<and>
         (scrapingControllers st chatId = None \<and> valid_url cfg (trim raw) \<longrightarrow>
            scrape_handler cfg w chatId raw st =
              (Finished (Rejected m),
               delete_controller chatId
                 (sendMessage chatId (''Scraping stopped: '' @ m)
                    (emit (LogError ''Scraping stopped:'')
                       (after_launch cfg w (admitted_state chatId (trim raw) st))))))"
proof -
  obtain es where es: "events (after_launch cfg w st) = events st @ Launch # es"
    "list_all handler_event es"
    using after_launch_events by blast
  have ne: "new_events st (after_launch cfg w st) = Launch # es"
    using es(1) by (simp add: new_events_def)
  have nav: "navigations (new_events st (after_launch cfg w st)) = 0"
    using handler_navigations [OF es(2)] by (simp add: ne navigations_def)
  have handler: "scrape_handler cfg w chatId raw st =
              (Finished (Rejected m),
               delete_controller chatId
                 (sendMessage chatId (''Scraping stopped: '' @ m)
                    (emit (LogError ''Scraping stopped:'')
                       (after_launch cfg w (admitted_state chatId (trim raw) st)))))"
    if "scrapingControllers st chatId = None" "valid_url cfg (trim raw)"
    by (simp add: scrape_handler_def Let_def admit_fresh [OF that]
          session_launch_failed [OF assms])
  show ?thesis
    using session_launch_failed [OF assms] ne es(2) nav handler by blast
qed

theorem launch_failure_is_fatal_witness:
  "scrape_handler default_config (world_with (Rejected ''no chrome'') [attempt_found]) 7
     ''http://shop/item'' empty_bot =
   (Finished (Rejected ''no chrome''),
    \<lparr>scrapingControllers = Map.empty, tokens = [False],
     events = [NewToken 0, LogInfo ''Received scraping request for URL: http://shop/item'',
               Launch, LogError ''Scraping stopped:'',
               SendMessage 7 ''Scraping stopped: no chrome'', Delete 7]\<rparr>) \<and>
   navigations (new_events empty_bot
     (after_launch default_config (world_with (Rejected ''no chrome'') [attempt_found]) empty_bot)) = 0"
proof -
  let ?w = "world_with (Rejected ''no chrome'') [attempt_found]"
  have l: "launch ?w = Rejected ''no chrome''" by (simp add: world_with_def)
  have run: "scrape_handler default_config ?w 7 ''http://shop/item'' empty_bot =
   (Finished (Rejected ''no chrome''),
    \<lparr>scrapingControllers = Map.empty, tokens = [False],
     events = [NewToken 0, LogInfo ''Received scraping request for URL: http://shop/item'',
               Launch, LogError ''Scraping stopped:'',
               SendMessage 7 ''Scraping stopped: no chrome'', Delete 7]\<rparr>)"
    by (simp add: scrape_handler_def admit_def Let_def default_config_def empty_bot_def
          world_with_def scrapeUntilButtonFound_def handle_all_def emit_def trim_def is_space_def
          delete_controller_def sendMessage_def)
  from launch_failure_is_fatal [OF l, of default_config "''x''" None empty_bot 7 "''http://shop/item''"]
  have "navigations (new_events empty_bot (after_launch default_config ?w empty_bot)) = 0"
    by blast
  with run show ?thesis by blast
qed

text \<open>
  Claim C10. When the token is already set as the run begins and launching, opening the
  page and setting the user agent succeed, the session still launches the browser and
  opens the page first, then sees the flag at the first check and throws the cancellation
  error (which an error of \<open>browser.close()\<close> would replace); it never navigates and it
  closes the browser once.
\<close>

theorem cancelled_before_start:
  assumes "is_cancelled tok st"
    and "launch w = Fulfilled ()" and "newPage w = Fulfilled ()" and "setUserAgent w = Fulfilled ()"
  shows "\<exists>es st'. list_all handler_event es \<and>
           scrapeUntilButtonFound cfg w url tok st =
             (Some (case close w of
                      Fulfilled v \<Rightarrow> Rejected ''Scraping stopped by user.''
                    | Rejected m \<Rightarrow> Rejected m), st') \<and>
           new_events st st' = Launch # es @
             [NewPage, SetUserAgent, LogInfo ''Scraping cancelled by user.'', Close] \<and>
           navigations (new_events st st') = 0 \<and>
           count_event Close (new_events st st') = 1"
proof -
  obtain es where es: "events (after_launch cfg w st) = events st @ Launch # es"
    "list_all handler_event es"
    using after_launch_events by blast
  let ?st1 = "after_launch cfg w st"
  let ?st2 = "emit SetUserAgent (emit NewPage ?st1)"
  let ?st' = "emit Close (emit (LogInfo ''Scraping cancelled by user.'') ?st2)"
  have c: "is_cancelled tok ?st2"
    using assms(1) by (simp add: after_launch_cancelled is_cancelled_emit)
  have tb: "try_body cfg w url tok ?st1 =
      (Some (Rejected ''Scraping stopped by user.''),
       emit (LogInfo ''Scraping cancelled by user.'') ?st2)"
    using assms(3,4) scrape_loop_cancelled [OF c] by (simp add: try_body_def)
  have run: "scrapeUntilButtonFound cfg w url tok st =
      (Some (case close w of
               Fulfilled v \<Rightarrow> Rejected ''Scraping stopped by user.''
             | Rejected m \<Rightarrow> Rejected m), ?st')"
    using assms(2) tb
    by (simp add: scrapeUntilButtonFound_def after_launch_def [symmetric] finally_close_def
          split: settled.splits)
  have ne: "new_events st ?st' = Launch # es @
             [NewPage, SetUserAgent, LogInfo ''Scraping cancelled by user.'', Close]"
    using es(1) by (simp add: new_events_def events_emit)
  have nav: "navigations (new_events st ?st') = 0"
    using handler_navigations [OF es(2)] by (simp add: ne navigations_def)
  have "count_event Close es = 0" using es(2) by (simp add: count_event_none)
  then have cl: "count_event Close (new_events st ?st') = 1"
    by (simp add: ne count_event_def)
  from es(2) run ne nav cl show ?thesis by blast
qed

theorem cancelled_before_start_witness:
  "fst (scrapeUntilButtonFound default_config (world_with (Fulfilled ()) [attempt_found])
     ''http://shop/item'' (Some 0) cancelled_bot) = Some (Rejected ''Scraping stopped by user.'') \<and>
   events (snd (scrapeUntilButtonFound default_config (world_with (Fulfilled ()) [attempt_found])
     ''http://shop/item'' (Some 0) cancelled_bot)) =
     [Launch, NewPage, SetUserAgent, LogInfo ''Scraping cancelled by user.'', Close]"
proof -
  let ?w = "world_with (Fulfilled ()) [attempt_found]"
  have c: "is_cancelled (Some 0) cancelled_bot"
    by (simp add: is_cancelled_def cancelled_bot_def)
  have w: "launch ?w = Fulfilled ()" "newPage ?w = Fulfilled ()" "setUserAgent ?w = Fulfilled ()"
    "close ?w = Fulfilled ()"
    by (simp_all add: world_with_def)
  have ev: "events (snd (scrapeUntilButtonFound default_config ?w
     ''http://shop/item'' (Some 0) cancelled_bot)) =
     [Launch, NewPage, SetUserAgent, LogInfo ''Scraping cancelled by user.'', Close]"
    by code_simp
  from cancelled_before_start [OF c w(1,2,3), of default_config "''http://shop/item''"]
  have "fst (scrapeUntilButtonFound default_config ?w ''http://shop/item'' (Some 0) cancelled_bot)
          = Some (Rejected ''Scraping stopped by user.'')"
    by (auto simp: w)
  with ev show ?thesis by blast
qed

section \<open>Cancellation\<close>

text \<open>
  Claim C3. For the loop of a session whose token \<open>r\<close> is allocated: whenever an iteration
  begins with the flag set, the loop throws the cancellation error there, having only
  logged the cancellation, so without navigating; and in the events of any run of the
  loop, whatever commands arrive and whatever the pages do, no navigation is issued after
  the event that sets the flag.
\<close>

theorem no_navigation_after_cancel:
  assumes "r < length (tokens st)"
    and "scrape_loop cfg url (Some r) as st = (res, st')"
  shows "(is_cancelled (Some r) st \<longrightarrow>
            res = Some (Rejected ''Scraping stopped by user.'') \<and>
            new_events st st' = [LogInfo ''Scraping cancelled by user.'']) \<and>
         (\<forall>xs ys. new_events st st' = xs @ SetCancelled r # ys \<longrightarrow> navigations ys = 0)"
proof -
  have first: "res = Some (Rejected ''Scraping stopped by user.'') \<and>
      new_events st st' = [LogInfo ''Scraping cancelled by user.'']"
    if "is_cancelled (Some r) st"
    using assms(2) scrape_loop_cancelled [OF that, of cfg url as]
    by (auto simp: new_events_def events_emit)
  obtain es where es: "events st' = events st @ es" "quiet_after r es"
    using scrape_loop_trace [OF assms] by blast
  have ne: "new_events st st' = es" using es(1) by (rule new_events_append)
  have "navigations ys = 0" if "new_events st st' = xs @ SetCancelled r # ys" for xs ys
    using es(2) that unfolding ne by (rule quiet_afterD)
  with first show ?thesis by blast
qed

theorem no_navigation_after_cancel_witness:
  "new_events running_bot (snd (scrape_loop default_config ''http://shop/item'' (Some 0)
       [attempt_hidden_then_stop, attempt_found] running_bot)) =
     [LogInfo ''Navigating to http://shop/item'', Goto ''http://shop/item'', Pause 1000, Scroll,
      Pause 2000, Query, LogInfo ''Button not found or is hidden. Retrying in 5 seconds...'',
      Pause 5000] @
     SetCancelled 0 #
     [SendMessage 7 ''Scraping has been stopped.'', LogInfo ''Scraping cancelled by user.''] \<and>
   navigations [SendMessage 7 ''Scraping has been stopped.'',
                LogInfo ''Scraping cancelled by user.''] = 0 \<and>
   fst (scrape_loop default_config ''http://shop/item'' (Some 0) [attempt_found] cancelled_bot) =
     Some (Rejected ''Scraping stopped by user.'')"
proof -
  let ?run = "scrape_loop default_config ''http://shop/item'' (Some 0)
       [attempt_hidden_then_stop, attempt_found] running_bot"
  let ?pre = "scrape_loop default_config ''http://shop/item'' (Some 0) [attempt_found] cancelled_bot"
  have ev: "new_events running_bot (snd ?run) =
     [LogInfo ''Navigating to http://shop/item'', Goto ''http://shop/item'', Pause 1000, Scroll,
      Pause 2000, Query, LogInfo ''Button not found or is hidden. Retrying in 5 seconds...'',
      Pause 5000] @
     SetCancelled 0 #
     [SendMessage 7 ''Scraping has been stopped.'', LogInfo ''Scraping cancelled by user.'']"
    by code_simp
  have l: "0 < length (tokens running_bot)" "0 < length (tokens cancelled_bot)"
    by (simp_all add: running_bot_def cancelled_bot_def)
  have c: "is_cancelled (Some 0) cancelled_bot"
    by (simp add: is_cancelled_def cancelled_bot_def)
  have run: "?run = (fst ?run, snd ?run)" and pre: "?pre = (fst ?pre, snd ?pre)" by simp_all
  from no_navigation_after_cancel [OF l(1) run] ev
  have "navigations [SendMessage 7 ''Scraping has been stopped.'',
                LogInfo ''Scraping cancelled by user.''] = 0"
    by blast
  moreover from no_navigation_after_cancel [OF l(2) pre] c
  have "fst ?pre = Some (Rejected ''Scraping stopped by user.'')" by blast
  ultimately show ?thesis using ev by blast
qed

section \<open>Release of the controller\<close>

lemma attempt_body_controller:
  assumes "attempt_body cfg url a st = (res, st')" and "scrapingControllers st c = Some r"
  shows "scrapingControllers st' c = Some r"
  using attempt_body_states [OF assms(1)] assms(2)
  by (auto simp: controllers_emit handle_all_controller_kept)

lemma retry_sleep_controller:
  "scrapingControllers st c = Some r \<Longrightarrow>
   scrapingControllers (retry_sleep cfg a (emit e st)) c = Some r"
  by (simp add: retry_sleep_def handle_all_controller_kept controllers_emit)

lemma scrape_loop_controller:
  "scrape_loop cfg url tok as st = (res, st') \<Longrightarrow> scrapingControllers st c = Some r \<Longrightarrow>
   scrapingControllers st' c = Some r"
proof (induction as arbitrary: st)
  case Nil
  then show ?case by (auto simp: controllers_emit split: if_splits)
next
  case (Cons a as)
  show ?case
  proof (cases "is_cancelled tok st")
    case True
    with Cons.prems show ?thesis by (auto simp: controllers_emit)
  next
    case False
    obtain ar st1 where ab: "attempt_body cfg url a st = (ar, st1)"
      by (cases "attempt_body cfg url a st")
    have k1: "scrapingControllers st1 c = Some r"
      using ab Cons.prems(2) by (rule attempt_body_controller)
    have cont: "scrapingControllers st' c = Some r"
      if "scrape_loop cfg url tok as (retry_sleep cfg a (emit e st1)) = (res, st')" for e
      using that retry_sleep_controller [OF k1] by (rule Cons.IH)
    from Cons.prems(1) False ab show ?thesis
      using k1 cont by (auto simp: controllers_emit split: option.splits settled.splits)
  qed
qed

lemma try_body_controller:
  "try_body cfg w url tok st = (res, st') \<Longrightarrow> scrapingControllers st c = Some r \<Longrightarrow>
   scrapingControllers st' c = Some r"
  by (auto simp: try_body_def controllers_emit split: settled.splits
       intro: scrape_loop_controller [where st = "emit SetUserAgent (emit NewPage st)"])

lemma session_controller:
  assumes "scrapeUntilButtonFound cfg w url tok st = (res, st')"
    and "scrapingControllers st c = Some r"
  shows "scrapingControllers st' c = Some r"
proof -
  have a: "scrapingControllers (after_launch cfg w st) c = Some r"
    using assms(2) by (rule after_launch_controller)
  from session_cases [OF assms(1)] show ?thesis
    using a try_body_controller [where st = "after_launch cfg w st", OF _ a]
    by (auto simp: controllers_emit)
qed

lemma session_no_delete:
  assumes "scrapeUntilButtonFound cfg w url tok st = (res, st')"
  shows "\<exists>es. events st' = events st @ es \<and> count_event (Delete c) es = 0"
proof -
  obtain es0 where es0: "events (after_launch cfg w st) = events st @ Launch # es0"
    "list_all handler_event es0"
    using after_launch_events by blast
  have d0: "count_event (Delete c) (Launch # es0) = 0"
    using count_event_none [OF es0(2), of "Delete c"] by (simp add: count_event_def)
  have body: "\<exists>es. events st2 = events st @ Launch # es \<and> count_event (Delete c) (Launch # es) = 0"
    if tb: "try_body cfg w url tok (after_launch cfg w st) = (r, st2)" for r st2
  proof -
    obtain es where es: "events st2 = events st @ Launch # es" "list_all body_event es"
      using session_events [OF tb] by blast
    have "count_event (Delete c) (Launch # es) = 0"
      using count_event_none [OF es(2), of "Delete c"] by (simp add: count_event_def)
    with es(1) show ?thesis by blast
  qed
  from session_cases [OF assms] consider
    (failed) "st' = after_launch cfg w st"
  | (running) st2 where "try_body cfg w url tok (after_launch cfg w st) = (None, st2)" "st' = st2"
  | (exited) st2 out where "try_body cfg w url tok (after_launch cfg w st) = (Some out, st2)"
      "st' = emit Close st2"
    by blast
  then show ?thesis
  proof cases
    case failed
    with es0(1) d0 show ?thesis by blast
  next
    case running
    with body show ?thesis by blast
  next
    case exited
    obtain es where es: "events st2 = events st @ Launch # es"
      "count_event (Delete c) (Launch # es) = 0"
      using body [OF exited(1)] by blast
    have "events st' = events st @ (Launch # es @ [Close])"
      using es(1) exited(2) by (simp add: events_emit)
    moreover have "count_event (Delete c) (Launch # es @ [Close]) = 0"
      using es(2) by (simp add: count_event_def)
    ultimately show ?thesis by blast
  qed
qed

text \<open>
  Claim C1. For a \<open>/scrape\<close> command that is admitted (well-formed URL, no entry for the
  conversation), in every world: the command is not refused; when the session has ended,
  with whichever outcome, the events of the handler end with the final message for that
  outcome followed by the deletion of the conversation's controller, there is no other
  deletion of it, and the entry is gone; while the session has not ended the controller
  has not been deleted and the entry still holds the session's token.
\<close>

theorem controller_removed_once:
  assumes "scrapingControllers st chatId = None" and "valid_url cfg (trim raw)"
    and "scrape_handler cfg w chatId raw st = (res, st')"
  shows "(case res of
            Refused why \<Rightarrow> False
          | Running \<Rightarrow>
              count_event (Delete chatId) (new_events st st') = 0 \<and>
              scrapingControllers st' chatId = Some (length (tokens st))
          | Finished out \<Rightarrow>
              (\<exists>es. new_events st st' =
                      es @ [SendMessage chatId (outcome_message out), Delete chatId] \<and>
                    count_event (Delete chatId) es = 0) \<and>
              count_event (Delete chatId) (new_events st st') = 1 \<and>
              scrapingControllers st' chatId = None)"
proof -
  let ?st1 = "admitted_state chatId (trim raw) st"
  let ?r = "length (tokens st)"
  obtain out st2 where run: "scrapeUntilButtonFound cfg w (trim raw) (Some ?r) ?st1 = (out, st2)"
    by (cases "scrapeUntilButtonFound cfg w (trim raw) (Some ?r) ?st1")
  obtain es where es: "events st2 = events ?st1 @ es" "count_event (Delete chatId) es = 0"
    using session_no_delete [OF run] by blast
  let ?es = "[NewToken ?r, LogInfo (''Received scraping request for URL: '' @ trim raw)] @ es"
  have ev2: "events st2 = events st @ ?es" using es(1) by (simp add: admitted_state_simps)
  have d2: "count_event (Delete chatId) ?es = 0" using es(2) by (simp add: count_event_def)
  have kept: "scrapingControllers st2 chatId = Some ?r"
    using run by (rule session_controller) (simp add: admitted_state_simps)
  have h: "scrape_handler cfg w chatId raw st =
     (case out of
        None \<Rightarrow> (Running, st2)
      | Some (Fulfilled d) \<Rightarrow>
          (Finished (Fulfilled d),
           delete_controller chatId (sendMessage chatId (found_message d) st2))
      | Some (Rejected m) \<Rightarrow>
          (Finished (Rejected m),
           delete_controller chatId
             (sendMessage chatId (''Scraping stopped: '' @ m)
                (emit (LogError ''Scraping stopped:'') st2))))"
    by (simp add: scrape_handler_def Let_def admit_fresh [OF assms(1,2)] run)
  show ?thesis
  proof (cases out)
    case None
    with h assms(3) have "res = Running" "st' = st2" by simp_all
    then show ?thesis using ev2 d2 kept by (simp add: new_events_def)
  next
    case (Some o1)
    show ?thesis
    proof (cases o1)
      case (Fulfilled d)
      with Some h assms(3) have r: "res = Finished (Fulfilled d)"
        "st' = delete_controller chatId (sendMessage chatId (found_message d) st2)" by simp_all
      have "new_events st st' = ?es @ [SendMessage chatId (found_message d), Delete chatId]"
        using ev2 r(2) by (simp add: new_events_def delete_controller_def sendMessage_def emit_def)
      moreover have "scrapingControllers st' chatId = None"
        using r(2) by (simp add: delete_controller_def emit_def)
      ultimately show ?thesis
        using r(1) d2 by (simp add: outcome_message_def count_event_def)
    next
      case (Rejected m)
      with Some h assms(3) have r: "res = Finished (Rejected m)"
        "st' = delete_controller chatId
             (sendMessage chatId (''Scraping stopped: '' @ m)
                (emit (LogError ''Scraping stopped:'') st2))" by simp_all
      have "new_events st st' = (?es @ [LogError ''Scraping stopped:'']) @
               [SendMessage chatId (''Scraping stopped: '' @ m), Delete chatId]"
        using ev2 r(2) by (simp add: new_events_def delete_controller_def sendMessage_def emit_def)
      moreover have "count_event (Delete chatId) (?es @ [LogError ''Scraping stopped:'']) = 0"
        using d2 by (simp add: count_event_def)
      moreover have "scrapingControllers st' chatId = None"
        using r(2) by (simp add: delete_controller_def emit_def)
      ultimately show ?thesis
        using r(1) by (simp add: outcome_message_def count_event_def del: append.simps append_assoc)
    qed
  qed
qed

theorem controller_removed_once_witness:
  "deletions world_found = 1 \<and> deletions world_stopped = 1 \<and> deletions world_launch_fails = 1 \<and>
   fst (scrape_handler default_config world_found 7 ''http://shop/item'' empty_bot) =
     Finished (Fulfilled \<lparr>data_text = ''Buy'', data_ariaLabel = Some ''Buy now'',
                           data_dataLink = None\<rparr>) \<and>
   fst (scrape_handler default_config world_stopped 7 ''http://shop/item'' empty_bot) =
     Finished (Rejected ''Scraping stopped by user.'') \<and>
   fst (scrape_handler default_config world_launch_fails 7 ''http://shop/item'' empty_bot) =
     Finished (Rejected ''no chrome'')"
proof -
  let ?h = "\<lambda>w. scrape_handler default_config w 7 ''http://shop/item'' empty_bot"
  have free: "scrapingControllers empty_bot 7 = None" by (simp add: empty_bot_def)
  have url: "valid_url default_config (trim ''http://shop/item'')"
    by (simp add: default_config_def trim_def is_space_def)
  have found: "fst (?h world_found) =
     Finished (Fulfilled \<lparr>data_text = ''Buy'', data_ariaLabel = Some ''Buy now'',
                           data_dataLink = None\<rparr>)"
    by code_simp
  have stopped: "fst (?h world_stopped) = Finished (Rejected ''Scraping stopped by user.'')"
    by code_simp
  have failed: "fst (?h world_launch_fails) = Finished (Rejected ''no chrome'')"
    by code_simp
  have run: "?h w = (fst (?h w), snd (?h w))" for w by simp
  note once = controller_removed_once [OF free url run]
  from once [of world_found] once [of world_stopped] once [of world_launch_fails]
  show ?thesis
    unfolding found stopped failed deletions_def by simp
qed

section \<open>Attempts: failure, not found, found\<close>

lemma fst_attempt_body: "fst (attempt_body cfg url a st) = attempt_outcome cfg a"
  by (simp add: attempt_body_def after_goto_def after_scroll_def attempt_outcome_def Let_def
        split: settled.splits option.splits)

lemma attempt_outcome_fails:
  "attempt_outcome cfg a = Some (Rejected m) \<longleftrightarrow> attempt_fails cfg a m"
  by (cases "goto a"; cases "scroll_eval a"; cases "query_eval a")
     (auto simp: attempt_outcome_def attempt_fails_def navigation_timed_out_def
        navigation_rejected_def navigated_def scrolled_def withTimeout_def
        split: settled.splits option.splits)


lemma scrape_loop_step:
  assumes "\<not> is_cancelled tok st"
  shows "scrape_loop cfg url tok (a # as) st =
     (case attempt_outcome cfg a of
        None \<Rightarrow> (None, snd (attempt_body cfg url a st))
      | Some (Fulfilled (Some d)) \<Rightarrow>
          (Some (Fulfilled d), emit (LogInfo ''Button found.'') (snd (attempt_body cfg url a st)))
      | Some (Fulfilled None) \<Rightarrow>
          scrape_loop cfg url tok as
            (retry_sleep cfg a
               (emit (LogInfo ''Button not found or is hidden. Retrying in 5 seconds...'')
                  (snd (attempt_body cfg url a st))))
      | Some (Rejected m) \<Rightarrow>
          scrape_loop cfg url tok as
            (retry_sleep cfg a
               (emit (LogError (''Error during scraping attempt: '' @ m))
                  (snd (attempt_body cfg url a st)))))"
proof -
  obtain ar st1 where ab: "attempt_body cfg url a st = (ar, st1)"
    by (cases "attempt_body cfg url a st")
  then have "attempt_outcome cfg a = ar" using fst_attempt_body [of cfg url a st] by simp
  with assms ab show ?thesis by (simp split: option.splits settled.splits)
qed

lemma scrape_loop_throws_only_cancellation:
  "fst (scrape_loop cfg url tok as st) = Some (Rejected m) \<Longrightarrow> m = ''Scraping stopped by user.''"
proof (induction as arbitrary: st)
  case Nil
  then show ?case by (auto split: if_splits)
next
  case (Cons a as)
  show ?case
  proof (cases "is_cancelled tok st")
    case True
    with Cons.prems show ?thesis by simp
  next
    case False
    from Cons.prems show ?thesis
      unfolding scrape_loop_step [OF False]
      by (auto split: option.splits settled.splits dest: Cons.IH)
  qed
qed


text \<open>
  Claim C6. When an iteration that is not cancelled meets a failing attempt (a navigation
  timeout, or an error thrown by the renderer during navigation, scrolling or extraction),
  the body of the inner \<open>try\<close> throws that error, the loop logs it, sleeps for
  \<open>RETRY_DELAY\<close> (5000 ms unless configured) while commands are handled, and goes on with
  the next iteration, which starts with the cancellation check. The loop never ends with
  the error of an attempt: the only error it throws is the cancellation.
\<close>

theorem attempt_failure_retried:
  assumes "\<not> is_cancelled tok st" and "attempt_fails cfg a m"
  shows "fst (attempt_body cfg url a st) = Some (Rejected m) \<and>
         scrape_loop cfg url tok (a # as) st =
           scrape_loop cfg url tok as
             (handle_all cfg (cmds_in_sleep a)
                (emit (Pause (RETRY_DELAY cfg))
                   (emit (LogError (''Error during scraping attempt: '' @ m))
                      (snd (attempt_body cfg url a st))))) \<and>
         (\<forall>m'. fst (scrape_loop cfg url tok (a # as) st) = Some (Rejected m') \<longrightarrow>
               m' = ''Scraping stopped by user.'') \<and>
         (RETRY_DELAY_MS cfg = None \<longrightarrow> RETRY_DELAY cfg = 5000)"
proof -
  have out: "attempt_outcome cfg a = Some (Rejected m)"
    using assms(2) by (simp add: attempt_outcome_fails)
  have "scrape_loop cfg url tok (a # as) st =
           scrape_loop cfg url tok as
             (handle_all cfg (cmds_in_sleep a)
                (emit (Pause (RETRY_DELAY cfg))
                   (emit (LogError (''Error during scraping attempt: '' @ m))
                      (snd (attempt_body cfg url a st)))))"
    unfolding scrape_loop_step [OF assms(1)] by (simp add: out retry_sleep_def)
  moreover have "fst (attempt_body cfg url a st) = Some (Rejected m)"
    using out by (simp add: fst_attempt_body)
  moreover have "RETRY_DELAY_MS cfg = None \<longrightarrow> RETRY_DELAY cfg = 5000"
    by (simp add: RETRY_DELAY_def or_default_def)
  ultimately show ?thesis
    using scrape_loop_throws_only_cancellation [of cfg url tok "a # as" st] by blast
qed

theorem attempt_failure_retried_witness:
  "fst (attempt_body default_config ''http://shop/item'' attempt_timeout empty_bot) =
     Some (Rejected ''Page navigation timed out'') \<and>
   fst (scrape_loop default_config ''http://shop/item'' None [attempt_timeout, attempt_found]
          empty_bot) =
     Some (Fulfilled \<lparr>data_text = ''Buy'', data_ariaLabel = Some ''Buy now'',
                       data_dataLink = None\<rparr>) \<and>
   events (snd (scrape_loop default_config ''http://shop/item'' None
                  [attempt_timeout, attempt_found] empty_bot)) =
     [LogInfo ''Navigating to http://shop/item'', Goto ''http://shop/item'',
      LogError ''Error during scraping attempt: Page navigation timed out'', Pause 5000,
      LogInfo ''Navigating to http://shop/item'', Goto ''http://shop/item'', Pause 1000, Scroll,
      Pause 2000, Query, LogInfo ''Button found.'']"
proof -
  have c: "\<not> is_cancelled None empty_bot" by (simp add: is_cancelled_def)
  have f: "attempt_fails default_config attempt_timeout ''Page navigation timed out''"
    by (simp add: attempt_fails_def navigation_timed_out_def attempt_timeout_def)
  have r: "fst (scrape_loop default_config ''http://shop/item'' None [attempt_timeout, attempt_found]
          empty_bot) =
     Some (Fulfilled \<lparr>data_text = ''Buy'', data_ariaLabel = Some ''Buy now'',
                       data_dataLink = None\<rparr>)"
    by code_simp
  have e: "events (snd (scrape_loop default_config ''http://shop/item'' None
                  [attempt_timeout, attempt_found] empty_bot)) =
     [LogInfo ''Navigating to http://shop/item'', Goto ''http://shop/item'',
      LogError ''Error during scraping attempt: Page navigation timed out'', Pause 5000,
      LogInfo ''Navigating to http://shop/item'', Goto ''http://shop/item'', Pause 1000, Scroll,
      Pause 2000, Query, LogInfo ''Button found.'']"
    by code_simp
  from attempt_failure_retried [OF c f, of "''http://shop/item''" "[attempt_found]"]
  have "fst (attempt_body default_config ''http://shop/item'' attempt_timeout empty_bot) =
     Some (Rejected ''Page navigation timed out'')"
    by blast
  with r e show ?thesis by blast
qed




section \<open>When the scrolling stops\<close>








end
